theory Spec2Isabelle
  imports Complex_Main "HOL-Library.Word"
begin

section \<open>Data model of the scale firmware\<close>

text \<open>
  The firmware is an Arduino sketch for an ESP32: \<^verbatim>\<open>unsigned long\<close> and
  \<^verbatim>\<open>unsigned int\<close> are 32-bit and wrap around, so timestamps are \<open>32 word\<close>
  (subtraction wraps, \<open><\<close> and \<open>div\<close> are unsigned). The \<^verbatim>\<open>float\<close>
  variables are modelled as \<open>real\<close>: comparisons, branches and assignments are those of
  the source, the rounding of single-precision arithmetic is not represented.
  The function-local \<^verbatim>\<open>static\<close> variables and the globals of the sketch are the
  fields of one record that every function takes and returns.
\<close>

type_synonym ulong = "32 word"

text \<open>The enumeration of the latest revision; \<open>MODE_COUNT\<close> is its last enumerator.\<close>

datatype Mode = MODE_POUR | MODE_SHOT | MODE_KITCHEN | MODE_SLEEP | MODE_COUNT

fun Mode_val :: "Mode \<Rightarrow> int" where
  "Mode_val MODE_POUR = 0"
| "Mode_val MODE_SHOT = 1"
| "Mode_val MODE_KITCHEN = 2"
| "Mode_val MODE_SLEEP = 3"
| "Mode_val MODE_COUNT = 4"

text \<open>The cast \<^verbatim>\<open>(Mode)n\<close>; the sketch only casts values in \<open>0..3\<close>.\<close>

definition Mode_cast :: "int \<Rightarrow> Mode" where
  "Mode_cast n =
     (if n = 0 then MODE_POUR
      else if n = 1 then MODE_SHOT
      else if n = 2 then MODE_KITCHEN
      else if n = 3 then MODE_SLEEP
      else MODE_COUNT)"

record scale_state =
  mode :: Mode
  lastModeButton :: bool
  lastModePress :: ulong
  gFilt :: real
  prevGFilt :: real
  shown_g :: real
  running :: bool
  time :: real
  startOnce :: bool
  tStart :: ulong
  flowStopTimer :: ulong
  lastZero :: ulong
  lastState :: bool

subsection \<open>Tuning knobs\<close>

definition emaBig :: real where "emaBig = 0.4"
definition emaMed :: real where "emaMed = 0.7"
definition emaSma :: real where "emaSma = 0.95"
definition threshold :: real where "threshold = 0.08"
definition zClampPos :: real where "zClampPos = 0.2"
definition zClampNeg :: real where "zClampNeg = 0.3"
definition timerStartG :: real where "timerStartG = 2.0"
definition minFlowT :: ulong where "minFlowT = 800"
definition minFlowG :: real where "minFlowG = 0.2"
definition debounce :: ulong where "debounce = 25"

section \<open>Signal conditioning\<close>

text \<open>
  The adaptive EMA block of \<^verbatim>\<open>loop\<close>: the new value of \<^verbatim>\<open>gFilt\<close> from the
  raw reading \<^verbatim>\<open>grams\<close> and the old \<^verbatim>\<open>gFilt\<close>.
\<close>

definition adaptive_ema :: "real \<Rightarrow> real \<Rightarrow> real" where
  "adaptive_ema grams gF =
     (let err = \<bar>grams - gF\<bar> in
      if err > 1.0 then grams
      else
        (let ema = (if err > 0.3 then emaBig
                    else if err > 0.1 then emaMed
                    else emaSma)
         in ema * gF + (1.0 - ema) * grams))"

text \<open>
  \<^verbatim>\<open>hysteresis\<close> keeps its last output in the static \<^verbatim>\<open>shown_g\<close>; it returns
  the value and the state with the static updated.
\<close>

definition hysteresis :: "real \<Rightarrow> scale_state \<Rightarrow> real \<times> scale_state" where
  "hysteresis read_g s =
     (let s' = (if \<bar>read_g - shown_g s\<bar> \<ge> threshold then s\<lparr>shown_g := read_g\<rparr> else s)
      in (shown_g s', s'))"

definition varZeroClamp :: "real \<Rightarrow> real" where
  "varZeroClamp g =
     (if g < 0 \<and> \<bar>g\<bar> < zClampNeg then 0.0
      else if g > 0 \<and> \<bar>g\<bar> < zClampPos then 0.0
      else g)"

text \<open>C's \<^verbatim>\<open>roundf\<close>: to the nearest integer, halfway cases away from zero.\<close>

definition roundf :: "real \<Rightarrow> real" where
  "roundf x = (if 0 \<le> x then of_int \<lfloor>x + 1 / 2\<rfloor> else of_int \<lceil>x - 1 / 2\<rceil>)"

definition quantize :: "real \<Rightarrow> real" where
  "quantize g = roundf (g * 10.0) / 10.0"

section \<open>Timer readout\<close>

text \<open>\<^verbatim>\<open>convertTime\<close> writes three reference parameters: minutes, seconds, milliseconds.\<close>

definition convertTime :: "ulong \<Rightarrow> ulong \<times> ulong \<times> ulong" where
  "convertTime t =
     (let milliseconds = (t mod 1000) div 100;
          seconds = t div 1000 mod 60;
          minutes = t div 60000
      in (minutes, seconds, milliseconds))"

section \<open>Mode switcher\<close>

text \<open>The two statements that cycle the mode, skipping sleep.\<close>

definition cycle_mode :: "Mode \<Rightarrow> Mode" where
  "cycle_mode m =
     (let m1 = Mode_cast ((Mode_val m + 1) mod Mode_val MODE_COUNT)
      in if m1 = MODE_SLEEP then MODE_POUR else m1)"

text \<open>
  The mode switcher block of \<^verbatim>\<open>loop\<close>, run on every pass with the level of the mode
  button (\<open>modePressed\<close>, true when the pin is low) and the clock.
\<close>

definition mode_switcher :: "bool \<Rightarrow> ulong \<Rightarrow> scale_state \<Rightarrow> scale_state" where
  "mode_switcher modePressed nowTime s =
     (let s1 = (if lastModeButton s = False \<and> modePressed = True then
                  (if nowTime - lastModePress s > debounce
                   then s\<lparr>lastModePress := nowTime, mode := cycle_mode (mode s)\<rparr>
                   else s)
                else s)
      in s1\<lparr>lastModeButton := modePressed\<rparr>)"

text \<open>
  The cycle as the specification words it: advance to \<open>(current + 1) mod modeCount\<close>, and
  from Sleep advance one more step. Modes are their enumerator values.
\<close>

definition cycle_spec :: "int \<Rightarrow> int" where
  "cycle_spec cur =
     (let nxt = (cur + 1) mod 4
      in if nxt = 3 then (nxt + 1) mod 4 else nxt)"

section \<open>Tare\<close>

text \<open>
  \<^verbatim>\<open>tare\<close> is called on every refresh with the clock and reads the level of the zero
  button (\<open>state\<close>, \<open>True\<close> for \<^verbatim>\<open>HIGH\<close>; the button pulls the pin low). Its statics
  \<^verbatim>\<open>lastZero\<close> and \<^verbatim>\<open>lastState\<close> are fields of the state. The calls
  \<^verbatim>\<open>scale.tare()\<close> and \<^verbatim>\<open>beep(100)\<close> act on the amplifier and the buzzer only.
\<close>

definition tare :: "ulong \<Rightarrow> bool \<Rightarrow> scale_state \<Rightarrow> scale_state" where
  "tare nowTime state s =
     (let s1 = (if lastState s = True \<and> state = False then
                  (if nowTime - lastZero s > debounce
                   then s\<lparr>lastZero := nowTime, gFilt := 0, running := False, time := 0,
                          flowStopTimer := 0, startOnce := True\<rparr>
                   else s)
                else s)
      in s1\<lparr>lastState := state\<rparr>)"

section \<open>Timer engine\<close>

definition updatePour :: "real \<Rightarrow> ulong \<Rightarrow> scale_state \<Rightarrow> scale_state" where
  "updatePour g nowTime s =
     (let s1 = (if running s = False \<and> startOnce s = True \<and> g > timerStartG
                then s\<lparr>running := True, tStart := nowTime, time := 0.0\<rparr>
                else s)
      in if running s1 = True
         then s1\<lparr>time := real (unat (nowTime - tStart s1))\<rparr>
         else s1)"

text \<open>
  \<^verbatim>\<open>updateShot\<close>, one definition for each of its four statements. The inline
  \<^verbatim>\<open>MODE_SHOT\<close> case of the earlier revision has the same four statements.
\<close>

definition shot_start :: "real \<Rightarrow> ulong \<Rightarrow> scale_state \<Rightarrow> scale_state" where
  "shot_start g nowTime s =
     (if running s = False \<and> startOnce s = True \<and> g > timerStartG
      then s\<lparr>running := True, tStart := nowTime, time := 0.0, startOnce := False,
             flowStopTimer := 0\<rparr>
      else s)"

definition shot_auto_stop :: "real \<Rightarrow> ulong \<Rightarrow> scale_state \<Rightarrow> scale_state" where
  "shot_auto_stop g nowTime s =
     (if running s = True then
        (let deltaG = g - prevGFilt s in
         if \<bar>deltaG\<bar> < minFlowG then
           (if flowStopTimer s = 0 then s\<lparr>flowStopTimer := nowTime\<rparr>
            else if nowTime - flowStopTimer s > minFlowT
            then s\<lparr>running := False, startOnce := False, flowStopTimer := 0\<rparr>
            else s)
         else s\<lparr>flowStopTimer := 0\<rparr>)
      else s)"

definition shot_time :: "ulong \<Rightarrow> scale_state \<Rightarrow> scale_state" where
  "shot_time nowTime s =
     (if running s = True
      then s\<lparr>time := real (unat (nowTime - tStart s)) / 1000.0\<rparr>
      else s)"

definition shot_rearm :: "real \<Rightarrow> scale_state \<Rightarrow> scale_state" where
  "shot_rearm g s = (if \<not> running s \<and> g < 1.0 then s\<lparr>startOnce := True\<rparr> else s)"

definition updateShot :: "real \<Rightarrow> ulong \<Rightarrow> scale_state \<Rightarrow> scale_state" where
  "updateShot g nowTime s =
     shot_rearm g (shot_time nowTime (shot_auto_stop g nowTime (shot_start g nowTime s)))"

text \<open>
  The \<^verbatim>\<open>MODE_SHOT\<close> case of the refresh for a conditioned weight \<open>g\<close>, with the
  assignment \<^verbatim>\<open>prevGFilt = gFilt\<close> that ends the refresh.
\<close>

definition shot_case :: "real \<Rightarrow> ulong \<Rightarrow> scale_state \<Rightarrow> scale_state" where
  "shot_case g nowTime s = (updateShot g nowTime (s\<lparr>gFilt := g\<rparr>))\<lparr>prevGFilt := g\<rparr>"

section \<open>Runs\<close>

text \<open>The values of the statics at boot, with the default mode.\<close>

definition boot_state :: scale_state where
  "boot_state =
     \<lparr>mode = MODE_POUR, lastModeButton = False, lastModePress = 0,
      gFilt = 0, prevGFilt = 0, shown_g = 0, running = False, time = 0,
      startOnce = True, tStart = 0, flowStopTimer = 0, lastZero = 0, lastState = True\<rparr>"

text \<open>The states after each call of \<^verbatim>\<open>hysteresis\<close> on a sequence of filtered values.\<close>

fun hysteresis_ticks :: "real list \<Rightarrow> scale_state \<Rightarrow> scale_state list" where
  "hysteresis_ticks [] s = []"
| "hysteresis_ticks (r # rs) s =
     (let s' = snd (hysteresis r s) in s' # hysteresis_ticks rs s')"

text \<open>The states after each Shot refresh at the given clock values, the weight held at \<open>g\<close>.\<close>

fun shot_ticks :: "real \<Rightarrow> ulong list \<Rightarrow> scale_state \<Rightarrow> scale_state list" where
  "shot_ticks g [] s = []"
| "shot_ticks g (t # ts) s = (let s' = shot_case g t s in s' # shot_ticks g ts s')"

text \<open>
  The \<^verbatim>\<open>MODE_POUR\<close> case of the refresh for a conditioned weight \<open>g\<close>, with the
  assignment \<^verbatim>\<open>prevGFilt = gFilt\<close> that ends the refresh, and the states after each
  Pour refresh of a sequence of weights and clock values.
\<close>

definition pour_case :: "real \<Rightarrow> ulong \<Rightarrow> scale_state \<Rightarrow> scale_state" where
  "pour_case g nowTime s = (updatePour g nowTime (s\<lparr>gFilt := g\<rparr>))\<lparr>prevGFilt := g\<rparr>"

fun pour_ticks :: "(real \<times> ulong) list \<Rightarrow> scale_state \<Rightarrow> scale_state list" where
  "pour_ticks [] s = []"
| "pour_ticks ((g, t) # xs) s = (let s' = pour_case g t s in s' # pour_ticks xs s')"

text \<open>How often \<open>running\<close> falls from true to false along a run that starts in \<open>s\<close>.\<close>

definition stop_events :: "scale_state \<Rightarrow> scale_state list \<Rightarrow> nat" where
  "stop_events s ss = length (filter (\<lambda>(a, b). running a \<and> \<not> running b) (zip (s # ss) ss))"

text \<open>
  A stopped Shot timer that the weight \<open>g\<close> cannot start again: the state the auto-stop
  leaves behind.
\<close>

definition stopped :: "real \<Rightarrow> scale_state \<Rightarrow> bool" where
  "stopped g s = (\<not> running s \<and> flowStopTimer s = 0 \<and> \<not> (startOnce s \<and> g > 2.0))"

text \<open>A Shot timer running since clock value 500 with 20 g shown, stalled since 1000.\<close>

definition stalled_state :: scale_state where
  "stalled_state = boot_state\<lparr>mode := MODE_SHOT, running := True, startOnce := False,
      gFilt := 20, prevGFilt := 20, tStart := 500, flowStopTimer := 1000\<rparr>"

text \<open>
  A Shot timer running with 19 g shown and the stall timer unset, shortly before the 32-bit
  clock wraps around.
\<close>

definition flowing_state :: scale_state where
  "flowing_state = boot_state\<lparr>mode := MODE_SHOT, running := True, startOnce := False,
      gFilt := 19, prevGFilt := 19, tStart := 4294960000\<rparr>"

section \<open>Properties\<close>

lemmas shot_defs = updateShot_def shot_start_def shot_auto_stop_def shot_time_def shot_rearm_def
  timerStartG_def minFlowG_def minFlowT_def

lemma stop_events_Cons:
  "stop_events s (s' # ss) = (if running s \<and> \<not> running s' then 1 else 0) + stop_events s' ss"
  by (simp add: stop_events_def)

text \<open>
  C10. For every elapsed time \<open>t\<close> in unsigned milliseconds, \<open>convertTime\<close> gives
  minutes \<open>t / 60000\<close>, seconds \<open>(t / 1000) mod 60\<close> and the tenths digit
  \<open>(t mod 1000) / 100\<close>; the seconds are in \<open>0..59\<close> and the tenths in \<open>0..9\<close>.
\<close>

theorem convertTime_fields:
  "(case convertTime t of (minutes, seconds, milliseconds) \<Rightarrow>
      unat minutes = unat t div 60000 \<and>
      unat seconds = (unat t div 1000) mod 60 \<and>
      unat milliseconds = (unat t mod 1000) div 100 \<and>
      unat seconds < 60 \<and> unat milliseconds \<le> 9)"
proof -
  have m: "unat (t div 60000) = unat t div 60000"
    by (simp add: unat_div)
  have s: "unat (t div 1000 mod 60) = (unat t div 1000) mod 60"
    by (simp add: unat_div unat_mod)
  have d: "unat ((t mod 1000) div 100) = (unat t mod 1000) div 100"
    by (simp add: unat_div unat_mod)
  have "(unat t mod 1000) div 100 \<le> 9"
    by (simp add: div_le_mono less_Suc_eq_le [symmetric] less_mult_imp_div_less)
  with m s d show ?thesis
    by (simp add: convertTime_def)
qed

subsection \<open>Quantization\<close>

lemma roundf_of_int: "roundf (of_int n) = of_int n"
proof (cases "0 \<le> n")
  case True
  have "\<lfloor>(of_int n :: real) + 1 / 2\<rfloor> = n" by linarith
  with True show ?thesis by (simp add: roundf_def)
next
  case False
  have "\<lceil>(of_int n :: real) - 1 / 2\<rceil> = n" by linarith
  with False show ?thesis by (simp add: roundf_def)
qed

lemma roundf_is_int: "\<exists>n. roundf x = of_int n"
  by (auto simp: roundf_def)

lemma roundf_near: "\<bar>roundf y - y\<bar> \<le> 1 / 2"
proof (cases "0 \<le> y")
  case True
  have "of_int \<lfloor>y + 1 / 2\<rfloor> \<le> y + 1 / 2" "y + 1 / 2 < of_int \<lfloor>y + 1 / 2\<rfloor> + 1"
    by linarith+
  then have "\<bar>of_int \<lfloor>y + 1 / 2\<rfloor> - y\<bar> \<le> 1 / 2" by linarith
  with True show ?thesis by (simp add: roundf_def)
next
  case False
  have "y - 1 / 2 \<le> of_int \<lceil>y - 1 / 2\<rceil>" "of_int \<lceil>y - 1 / 2\<rceil> < y - 1 / 2 + 1"
    by linarith+
  then have "\<bar>of_int \<lceil>y - 1 / 2\<rceil> - y\<bar> \<le> 1 / 2" by linarith
  with False show ?thesis by (simp add: roundf_def)
qed

lemma tenth_of_near: "\<bar>r - x * 10\<bar> \<le> 1 / 2 \<Longrightarrow> \<bar>r / 10 - x\<bar> \<le> (0.05::real)"
  by (auto simp: abs_if field_simps split: if_splits)

text \<open>
  C9. Quantization to the nearest 0.1 g is idempotent: \<open>quantize (quantize x) = quantize x\<close>
  for every \<open>x\<close>. The result is a multiple of 0.1 at most 0.05 away from \<open>x\<close>.
\<close>

theorem quantize_idempotent:
  "quantize (quantize x) = quantize x \<and>
   (\<exists>n. quantize x = of_int n / 10) \<and> \<bar>quantize x - x\<bar> \<le> 0.05"
proof -
  obtain n where n: "roundf (x * 10) = of_int n"
    using roundf_is_int by blast
  have "quantize x * 10 = of_int n"
    by (simp add: quantize_def n)
  then have "roundf (quantize x * 10) = of_int n"
    by (simp add: roundf_of_int)
  then have idem: "quantize (quantize x) = quantize x"
    by (simp add: quantize_def n)
  have grid: "\<exists>n. quantize x = of_int n / 10"
    using n by (auto simp: quantize_def)
  have "\<bar>roundf (x * 10) - x * 10\<bar> \<le> 1 / 2"
    by (rule roundf_near)
  then have "\<bar>roundf (x * 10) / 10 - x\<bar> \<le> 0.05"
    by (rule tenth_of_near)
  then have near: "\<bar>quantize x - x\<bar> \<le> 0.05"
    by (simp add: quantize_def)
  from idem grid near show ?thesis by blast
qed

subsection \<open>Zero clamp\<close>

text \<open>
  C5, as the specification states it, fails: 0.25 lies strictly between -0.3 and 0.3 and the
  clamp returns it unchanged, because the positive bound is 0.2.
\<close>

theorem varZeroClamp_quarter_passes:
  "- 0.3 < (0.25::real) \<and> (0.25::real) < 0.3 \<and> varZeroClamp 0.25 = 0.25 \<and> varZeroClamp 0.25 \<noteq> 0.0"
  by (simp add: varZeroClamp_def zClampPos_def zClampNeg_def)

text \<open>
  C5, amended. For every input \<open>g\<close> strictly between -0.3 and 0.2 the zero clamp returns
  exactly 0.0; every input from 0.2 upwards and every input from -0.3 downwards is returned
  unchanged, in particular 0.4 and -0.4.
\<close>

theorem varZeroClamp_bounds:
  "(- 0.3 < g \<and> g < 0.2 \<longrightarrow> varZeroClamp g = 0.0) \<and>
   (0.2 \<le> g \<or> g \<le> - 0.3 \<longrightarrow> varZeroClamp g = g) \<and>
   varZeroClamp 0.4 = 0.4 \<and> varZeroClamp (- 0.4) = - 0.4"
  by (auto simp add: varZeroClamp_def zClampPos_def zClampNeg_def)

theorem varZeroClamp_bounds_witness:
  "- 0.3 < (0.1::real) \<and> (0.1::real) < 0.2 \<and> varZeroClamp 0.1 = 0.0 \<and>
   varZeroClamp (- 0.25) = 0.0 \<and> varZeroClamp 0.25 = 0.25 \<and> varZeroClamp (- 0.3) = - 0.3"
  using varZeroClamp_bounds [of "0.1"] varZeroClamp_bounds [of "- 0.25"]
    varZeroClamp_bounds [of "0.25"] varZeroClamp_bounds [of "- 0.3"]
  by simp

subsection \<open>Adaptive smoothing\<close>

text \<open>
  C1. With \<open>err = \<bar>raw - filtered\<bar>\<close>: if \<open>err > 1.0\<close> the filtered value becomes the raw
  value; otherwise it becomes \<open>coeff * filtered + (1 - coeff) * raw\<close> with \<open>coeff = 0.4\<close> if
  \<open>err > 0.3\<close>, \<open>0.7\<close> if \<open>0.1 < err \<le> 0.3\<close> and \<open>0.95\<close> otherwise. A raw jump of
  +50 g from a filtered baseline of 0 g gives 50 g in that tick.
\<close>

theorem adaptive_ema_bands:
  "(\<bar>raw - f\<bar> > 1.0 \<longrightarrow> adaptive_ema raw f = raw) \<and>
   (\<bar>raw - f\<bar> \<le> 1.0 \<and> \<bar>raw - f\<bar> > 0.3 \<longrightarrow> adaptive_ema raw f = 0.4 * f + (1 - 0.4) * raw) \<and>
   (0.1 < \<bar>raw - f\<bar> \<and> \<bar>raw - f\<bar> \<le> 0.3 \<longrightarrow> adaptive_ema raw f = 0.7 * f + (1 - 0.7) * raw) \<and>
   (\<bar>raw - f\<bar> \<le> 0.1 \<longrightarrow> adaptive_ema raw f = 0.95 * f + (1 - 0.95) * raw) \<and>
   adaptive_ema (0 + 50) 0 = 50"
  by (simp add: adaptive_ema_def Let_def emaBig_def emaMed_def emaSma_def)

theorem adaptive_ema_bands_witness:
  "\<bar>50 - 0\<bar> > (1.0::real) \<and> adaptive_ema 50 0 = 50 \<and>
   adaptive_ema 10.5 10 = 0.4 * 10 + (1 - 0.4) * 10.5 \<and>
   adaptive_ema 10.2 10 = 0.7 * 10 + (1 - 0.7) * 10.2 \<and>
   adaptive_ema 10 10 = 10"
  using adaptive_ema_bands [of 50 0] adaptive_ema_bands [of "10.5" 10]
    adaptive_ema_bands [of "10.2" 10] adaptive_ema_bands [of 10 10]
  by simp

subsection \<open>Mode cycle\<close>

text \<open>
  C7. On a debounced rising edge of the mode button the mode advances to
  \<open>(current + 1) mod modeCount\<close>, and one step further when that is Sleep: cycling from the
  mode before Sleep lands on the mode after Sleep, and the mode reached is never Sleep.
\<close>

theorem mode_cycle_skips_sleep:
  assumes "lastModeButton s = False" and "nowTime - lastModePress s > debounce"
  shows "mode (mode_switcher True nowTime s) = cycle_mode (mode s) \<and>
         Mode_val (cycle_mode (mode s)) = cycle_spec (Mode_val (mode s)) \<and>
         cycle_mode (mode s) \<noteq> MODE_SLEEP \<and>
         cycle_mode MODE_KITCHEN = MODE_POUR \<and>
         Mode_val MODE_KITCHEN + 1 = Mode_val MODE_SLEEP \<and>
         Mode_val MODE_POUR = (Mode_val MODE_SLEEP + 1) mod Mode_val MODE_COUNT"
proof -
  have edge: "mode (mode_switcher True nowTime s) = cycle_mode (mode s)"
    using assms by (simp add: mode_switcher_def)
  have cyc: "Mode_val (cycle_mode m) = cycle_spec (Mode_val m) \<and> cycle_mode m \<noteq> MODE_SLEEP" for m
    by (cases m) (simp_all add: cycle_mode_def cycle_spec_def Mode_cast_def)
  have kitchen: "cycle_mode MODE_KITCHEN = MODE_POUR"
    by (simp add: cycle_mode_def Mode_cast_def)
  from edge cyc [of "mode s"] kitchen show ?thesis by simp
qed

theorem mode_cycle_skips_sleep_witness:
  "lastModeButton (boot_state\<lparr>mode := MODE_KITCHEN\<rparr>) = False \<and>
   1000 - lastModePress (boot_state\<lparr>mode := MODE_KITCHEN\<rparr>) > debounce \<and>
   mode (mode_switcher True 1000 (boot_state\<lparr>mode := MODE_KITCHEN\<rparr>)) = MODE_POUR"
proof -
  have a: "lastModeButton (boot_state\<lparr>mode := MODE_KITCHEN\<rparr>) = False"
    by (simp add: boot_state_def)
  have b: "1000 - lastModePress (boot_state\<lparr>mode := MODE_KITCHEN\<rparr>) > debounce"
    by (simp add: boot_state_def debounce_def)
  from mode_cycle_skips_sleep [OF a b] a b show ?thesis
    by simp
qed

subsection \<open>Hysteresis gate\<close>

lemma hysteresis_step:
  "shown_g (snd (hysteresis r s)) = (if \<bar>r - shown_g s\<bar> \<ge> 0.08 then r else shown_g s) \<and>
   fst (hysteresis r s) = shown_g (snd (hysteresis r s))"
  by (simp add: hysteresis_def threshold_def Let_def)

lemma hysteresis_ticks_nth:
  "i < length rs \<Longrightarrow>
   hysteresis_ticks rs s ! i = snd (hysteresis (rs ! i) ((s # hysteresis_ticks rs s) ! i))"
proof (induction rs arbitrary: s i)
  case Nil
  then show ?case by simp
next
  case (Cons r rs)
  show ?case
  proof (cases i)
    case 0
    then show ?thesis by (simp add: Let_def)
  next
    case (Suc j)
    with Cons.prems have "j < length rs" by simp
    from Cons.IH [OF this, of "snd (hysteresis r s)"] Suc show ?thesis
      by (simp add: Let_def)
  qed
qed

text \<open>
  C2. For every sequence of filtered values and every tick \<open>i\<close> of it, the shown value
  changes only when the new filtered value differs from it by at least 0.08 g, and then it
  becomes that value; when the difference is strictly below 0.08 g the shown value is kept and
  returned unchanged.
\<close>

theorem hysteresis_gate:
  assumes "i < length rs"
  shows "(let before = (s # hysteresis_ticks rs s) ! i;
              after = hysteresis_ticks rs s ! i
          in (shown_g after \<noteq> shown_g before \<longrightarrow>
                \<bar>rs ! i - shown_g before\<bar> \<ge> 0.08 \<and> shown_g after = rs ! i) \<and>
             (\<bar>rs ! i - shown_g before\<bar> \<ge> 0.08 \<longrightarrow> shown_g after = rs ! i) \<and>
             (\<bar>rs ! i - shown_g before\<bar> < 0.08 \<longrightarrow>
                shown_g after = shown_g before \<and>
                fst (hysteresis (rs ! i) before) = shown_g before))"
  using hysteresis_ticks_nth [OF assms, of s]
    hysteresis_step [of "rs ! i" "(s # hysteresis_ticks rs s) ! i"]
  by (simp add: Let_def)

theorem hysteresis_gate_witness:
  "(2::nat) < length [0.05, 0.07, 0.1 :: real] \<and>
   map shown_g (hysteresis_ticks [0.05, 0.07, 0.1] boot_state) = [0, 0, 0.1]"
  using hysteresis_gate [of 0 "[0.05, 0.07, 0.1]" boot_state]
    hysteresis_gate [of 2 "[0.05, 0.07, 0.1]" boot_state]
  by (simp add: Let_def hysteresis_def threshold_def boot_state_def)

subsection \<open>Timer start\<close>

text \<open>
  C4, as the specification states it, fails for Pour: from the boot state with 3 g shown,
  \<open>updatePour\<close> starts the timer and \<open>startOnce\<close> (armed) is still true.
\<close>

theorem pour_start_stays_armed:
  "\<not> running boot_state \<and> startOnce boot_state \<and> (3::real) > 2.0 \<and>
   running (updatePour 3 1000 boot_state) \<and> startOnce (updatePour 3 1000 boot_state)"
  by (simp add: updatePour_def boot_state_def timerStartG_def)

lemma updatePour_keeps_running:
  "(running s \<longrightarrow> running (updatePour g nowTime s) \<and> tStart (updatePour g nowTime s) = tStart s \<and>
      time (updatePour g nowTime s) = real (unat (nowTime - tStart s))) \<and>
   startOnce (updatePour g nowTime s) = startOnce s"
  by (simp add: updatePour_def Let_def)

lemma pour_case_keeps_running:
  "(running s \<longrightarrow> running (pour_case g t s)) \<and> startOnce (pour_case g t s) = startOnce s"
  by (simp add: pour_case_def updatePour_def Let_def)

lemma pour_run_never_stops:
  "stop_events s (pour_ticks xs s) = 0 \<and>
   list_all (\<lambda>s'. startOnce s' = startOnce s) (pour_ticks xs s) \<and>
   (running s \<longrightarrow> list_all running (pour_ticks xs s))"
proof (induction xs arbitrary: s)
  case Nil
  then show ?case by (simp add: stop_events_def)
next
  case (Cons x xs)
  obtain g t where x: "x = (g, t)" by (cases x)
  from Cons.IH [of "pour_case g t s"] pour_case_keeps_running [of s g t] show ?case
    by (simp add: x Let_def stop_events_Cons)
qed

text \<open>
  C4, amended. In both Pour and Shot modes the timer starts on a tick exactly when it is not
  running, is armed and the shown weight is above 2.0 g; on that tick \<open>running\<close> becomes
  true, the start timestamp is the clock and the elapsed time is 0. Shot disarms on start.
  Pour never writes \<open>startOnce\<close> and is free-running: on every tick \<open>startOnce\<close> keeps
  its value, a running Pour timer keeps running with the same start timestamp and the elapsed
  time the clock minus that timestamp, and along every run of Pour refreshes \<open>running\<close>
  never falls.
\<close>

theorem timer_start:
  "((running (updatePour g nowTime s) \<and> \<not> running s) = (\<not> running s \<and> startOnce s \<and> g > 2.0)) \<and>
   ((running (updateShot g nowTime s) \<and> \<not> running s) = (\<not> running s \<and> startOnce s \<and> g > 2.0)) \<and>
   (\<not> running s \<and> startOnce s \<and> g > 2.0 \<longrightarrow>
      running (updatePour g nowTime s) \<and> tStart (updatePour g nowTime s) = nowTime \<and>
      time (updatePour g nowTime s) = 0 \<and> startOnce (updatePour g nowTime s) \<and>
      running (updateShot g nowTime s) \<and> tStart (updateShot g nowTime s) = nowTime \<and>
      time (updateShot g nowTime s) = 0 \<and> \<not> startOnce (updateShot g nowTime s)) \<and>
   (running s \<longrightarrow>
      running (updatePour g nowTime s) \<and> tStart (updatePour g nowTime s) = tStart s \<and>
      time (updatePour g nowTime s) = real (unat (nowTime - tStart s))) \<and>
   startOnce (updatePour g nowTime s) = startOnce s \<and>
   stop_events s (pour_ticks xs s) = 0 \<and>
   list_all (\<lambda>s'. startOnce s' = startOnce s) (pour_ticks xs s) \<and>
   (running s \<longrightarrow> list_all running (pour_ticks xs s))"
proof -
  have p1: "(running (updatePour g nowTime s) \<and> \<not> running s) = (\<not> running s \<and> startOnce s \<and> g > 2.0)"
    by (auto simp add: updatePour_def timerStartG_def Let_def)
  have s1: "(running (updateShot g nowTime s) \<and> \<not> running s) = (\<not> running s \<and> startOnce s \<and> g > 2.0)"
    by (auto simp add: shot_defs Let_def)
  have p2: "running (updatePour g nowTime s) \<and> tStart (updatePour g nowTime s) = nowTime \<and>
      time (updatePour g nowTime s) = 0 \<and> startOnce (updatePour g nowTime s)"
    if "\<not> running s \<and> startOnce s \<and> g > 2.0"
    using that by (simp add: updatePour_def timerStartG_def Let_def)
  have s2: "running (updateShot g nowTime s) \<and> tStart (updateShot g nowTime s) = nowTime \<and>
      time (updateShot g nowTime s) = 0 \<and> \<not> startOnce (updateShot g nowTime s)"
    if "\<not> running s \<and> startOnce s \<and> g > 2.0"
    using that by (simp add: shot_defs Let_def)
  from p1 s1 p2 s2 updatePour_keeps_running [of s g nowTime] pour_run_never_stops [of s xs]
  show ?thesis by blast
qed

theorem timer_start_witness:
  "\<not> running boot_state \<and> startOnce boot_state \<and> (3::real) > 2.0 \<and>
   running (updateShot 3 1000 boot_state) \<and> tStart (updateShot 3 1000 boot_state) = 1000 \<and>
   time (updateShot 3 1000 boot_state) = 0 \<and> \<not> startOnce (updateShot 3 1000 boot_state) \<and>
   running (updatePour 3 1000 boot_state) \<and> tStart (updatePour 3 1000 boot_state) = 1000 \<and>
   time (updatePour 3 1000 boot_state) = 0 \<and>
   running (updatePour 0.5 2000 (updatePour 3 1000 boot_state)) \<and>
   startOnce (updatePour 0.5 2000 (updatePour 3 1000 boot_state)) \<and>
   tStart (updatePour 0.5 2000 (updatePour 3 1000 boot_state)) = 1000 \<and>
   time (updatePour 0.5 2000 (updatePour 3 1000 boot_state)) = 1000 \<and>
   stop_events boot_state (pour_ticks [(3, 1000), (0.5, 2000), (0, 3000)] boot_state) = 0 \<and>
   map running (pour_ticks [(3, 1000), (0.5, 2000), (0, 3000)] boot_state) = [True, True, True]"
proof -
  have h: "\<not> running boot_state \<and> startOnce boot_state \<and> (3::real) > 2.0"
    by (simp add: boot_state_def)
  from h timer_start [of 3 1000 boot_state "[(3, 1000), (0.5, 2000), (0, 3000)]"]
  have first: "running (updateShot 3 1000 boot_state) \<and> tStart (updateShot 3 1000 boot_state) = 1000 \<and>
   time (updateShot 3 1000 boot_state) = 0 \<and> \<not> startOnce (updateShot 3 1000 boot_state) \<and>
   running (updatePour 3 1000 boot_state) \<and> tStart (updatePour 3 1000 boot_state) = 1000 \<and>
   time (updatePour 3 1000 boot_state) = 0 \<and> startOnce (updatePour 3 1000 boot_state) \<and>
   stop_events boot_state (pour_ticks [(3, 1000), (0.5, 2000), (0, 3000)] boot_state) = 0"
    by simp
  then have r: "running (updatePour 3 1000 boot_state)" by simp
  from r timer_start [of "0.5" 2000 "updatePour 3 1000 boot_state" "[]"] first
  have second: "running (updatePour 0.5 2000 (updatePour 3 1000 boot_state)) \<and>
   startOnce (updatePour 0.5 2000 (updatePour 3 1000 boot_state)) \<and>
   tStart (updatePour 0.5 2000 (updatePour 3 1000 boot_state)) = 1000 \<and>
   time (updatePour 0.5 2000 (updatePour 3 1000 boot_state)) = 1000"
    by simp
  have third: "map running (pour_ticks [(3, 1000), (0.5, 2000), (0, 3000)] boot_state) = [True, True, True]"
    by (simp add: pour_case_def updatePour_def boot_state_def timerStartG_def Let_def)
  from h first second third show ?thesis by simp
qed

subsection \<open>Tare\<close>

text \<open>
  C6, as the specification states it, fails: with 5 g filtered and shown, a debounced press of
  the zero button resets \<open>gFilt\<close> and the timer, and \<open>shown_g\<close> is still 5.
\<close>

theorem tare_keeps_shown_g:
  "(let s = boot_state\<lparr>gFilt := 5, shown_g := 5\<rparr>; s' = tare 1000 False s
    in lastState s \<and> 1000 - lastZero s > debounce \<and>
       gFilt s' = 0 \<and> running s' = False \<and> time s' = 0 \<and> startOnce s' = True \<and>
       flowStopTimer s' = 0 \<and> shown_g s' = 5 \<and> shown_g s' \<noteq> 0)"
  by (simp add: tare_def boot_state_def debounce_def Let_def)

text \<open>
  C6, amended. For every state, a debounced press of the tare button sets the filtered weight
  \<open>gFilt\<close> to 0 and the timer to its initial values: not running, elapsed time 0, armed,
  stall timer unset. The value held by the hysteresis gate is not written by the tare.
\<close>

theorem tare_resets:
  assumes "lastState s = True" and "nowTime - lastZero s > debounce"
  shows "(let s' = tare nowTime False s
          in gFilt s' = 0 \<and> running s' = False \<and> time s' = 0 \<and> startOnce s' = True \<and>
             flowStopTimer s' = 0 \<and> shown_g s' = shown_g s)"
  using assms by (simp add: tare_def Let_def)

theorem tare_resets_witness:
  "lastState stalled_state = True \<and> 2000 - lastZero stalled_state > debounce \<and>
   gFilt (tare 2000 False stalled_state) = 0 \<and>
   running (tare 2000 False stalled_state) = False \<and>
   time (tare 2000 False stalled_state) = 0 \<and>
   startOnce (tare 2000 False stalled_state) = True \<and>
   flowStopTimer (tare 2000 False stalled_state) = 0"
proof -
  have a: "lastState stalled_state = True"
    by (simp add: stalled_state_def boot_state_def)
  have b: "2000 - lastZero stalled_state > debounce"
    by (simp add: stalled_state_def boot_state_def debounce_def)
  from tare_resets [OF a b] a b show ?thesis
    by (simp add: Let_def)
qed

subsection \<open>Shot auto-stop\<close>

lemma updateShot_check:
  "running (shot_start g nowTime s) \<longrightarrow>
     (let s1 = shot_start g nowTime s; s' = updateShot g nowTime s
      in (\<bar>g - prevGFilt s1\<bar> < 0.2 \<and> flowStopTimer s1 = 0 \<longrightarrow>
            flowStopTimer s' = nowTime \<and> running s') \<and>
         (\<bar>g - prevGFilt s1\<bar> < 0.2 \<and> flowStopTimer s1 \<noteq> 0 \<and> \<not> nowTime - flowStopTimer s1 > 800 \<longrightarrow>
            flowStopTimer s' = flowStopTimer s1 \<and> running s') \<and>
         (\<bar>g - prevGFilt s1\<bar> < 0.2 \<and> flowStopTimer s1 \<noteq> 0 \<and> nowTime - flowStopTimer s1 > 800 \<longrightarrow>
            \<not> running s' \<and> flowStopTimer s' = 0) \<and>
         (\<bar>g - prevGFilt s1\<bar> \<ge> 0.2 \<longrightarrow> flowStopTimer s' = 0 \<and> running s'))"
  by (simp add: updateShot_def shot_auto_stop_def shot_time_def shot_rearm_def minFlowG_def
      minFlowT_def Let_def)

lemma stopped_shot_case: "stopped g s \<Longrightarrow> stopped g (shot_case g t s)"
  by (auto simp add: stopped_def shot_case_def shot_defs Let_def)

lemma stopped_run:
  "stopped g s \<Longrightarrow>
   stop_events s (shot_ticks g ts s) = 0 \<and> stopped g (last (s # shot_ticks g ts s))"
proof (induction ts arbitrary: s)
  case Nil
  then show ?case by (simp add: stop_events_def)
next
  case (Cons t ts)
  have s': "stopped g (shot_case g t s)"
    using Cons.prems by (rule stopped_shot_case)
  from Cons.IH [OF s'] Cons.prems show ?case
    by (simp add: Let_def stop_events_Cons stopped_def)
qed

lemma stall_fires:
  assumes "running s" "flowStopTimer s \<noteq> 0" "prevGFilt s = g" "t - flowStopTimer s > 800"
  shows "stopped g (shot_case g t s)"
  using assms by (auto simp add: stopped_def shot_case_def shot_defs Let_def)

lemma stall_continues:
  assumes "running s" "flowStopTimer s \<noteq> 0" "prevGFilt s = g" "\<not> t - flowStopTimer s > 800"
  shows "running (shot_case g t s) \<and> flowStopTimer (shot_case g t s) = flowStopTimer s \<and>
         prevGFilt (shot_case g t s) = g"
  using assms by (simp add: shot_case_def shot_defs Let_def)

lemma stalled_run:
  assumes "running s" "flowStopTimer s \<noteq> 0" "prevGFilt s = g"
    and "\<exists>u \<in> set ts. u - flowStopTimer s > 800"
  shows "stop_events s (shot_ticks g ts s) = 1 \<and> stopped g (last (shot_ticks g ts s))"
  using assms
proof (induction ts arbitrary: s)
  case Nil
  then show ?case by simp
next
  case (Cons t ts)
  show ?case
  proof (cases "t - flowStopTimer s > 800")
    case True
    have st: "stopped g (shot_case g t s)"
      using Cons.prems(1-3) True by (rule stall_fires)
    from stopped_run [OF st, of ts] st Cons.prems(1) show ?thesis
      by (simp add: Let_def stop_events_Cons stopped_def)
  next
    case False
    have c: "running (shot_case g t s) \<and> flowStopTimer (shot_case g t s) = flowStopTimer s \<and>
         prevGFilt (shot_case g t s) = g"
      using Cons.prems(1-3) False by (rule stall_continues)
    from Cons.prems(4) False have ex: "\<exists>u \<in> set ts. u - flowStopTimer (shot_case g t s) > 800"
      using c by auto
    then have ne: "ts \<noteq> []" by auto
    have "shot_ticks g ts (shot_case g t s) \<noteq> []"
      using ne by (cases ts) (simp_all add: Let_def)
    with Cons.IH [of "shot_case g t s"] c ex Cons.prems(2) show ?thesis
      by (simp add: Let_def stop_events_Cons)
  qed
qed

lemma shot_case_fields:
  "running s \<longrightarrow>
     running (shot_case g t s) =
       (\<not> (\<bar>g - prevGFilt s\<bar> < 0.2 \<and> flowStopTimer s \<noteq> 0 \<and> t - flowStopTimer s > 800)) \<and>
     flowStopTimer (shot_case g t s) =
       (if \<bar>g - prevGFilt s\<bar> < 0.2
        then (if flowStopTimer s = 0 then t
              else if t - flowStopTimer s > 800 then 0 else flowStopTimer s)
        else 0) \<and>
     prevGFilt (shot_case g t s) = g"
  by (simp add: shot_case_def shot_defs Let_def)

lemma stall_run_from_unset:
  assumes "running s" "flowStopTimer s = 0" "\<bar>g - prevGFilt s\<bar> < 0.2" "t0 \<noteq> 0"
    and "\<exists>u \<in> set ts. u - t0 > 800"
  shows "stop_events s (shot_ticks g (t0 # ts) s) = 1 \<and>
         \<not> running (last (shot_ticks g (t0 # ts) s)) \<and>
         flowStopTimer (last (shot_ticks g (t0 # ts) s)) = 0"
proof -
  have first: "running (shot_case g t0 s) \<and> flowStopTimer (shot_case g t0 s) = t0 \<and>
      prevGFilt (shot_case g t0 s) = g"
    using assms(1-3) by (simp add: shot_case_def shot_defs Let_def)
  with assms(4,5) have rest: "stop_events (shot_case g t0 s) (shot_ticks g ts (shot_case g t0 s)) = 1 \<and>
      stopped g (last (shot_ticks g ts (shot_case g t0 s)))"
    using stalled_run [of "shot_case g t0 s" g ts] by simp
  from assms(5) have "ts \<noteq> []" by auto
  then have "shot_ticks g ts (shot_case g t0 s) \<noteq> []"
    by (cases ts) (simp_all add: Let_def)
  with first rest assms(1) show ?thesis
    by (simp add: Let_def stop_events_Cons stopped_def)
qed

text \<open>
  C3. The claim is that in Shot mode, on every tick with the timer running, a change of the
  shown weight below 0.2 g starts the stall timer when it is unset or continues it, that
  once the stall has lasted strictly more than 800 ms \<open>running\<close> becomes false, exactly
  once, with the stall timer unset again, and that a change of at least 0.2 g clears the
  stall timer. The lemmas above show the code doing so whenever the stall begins at a clock
  value other than 0. It fails when the stall begins at clock value 0, where the started stall
  timer is the value that means unset: the timer runs, the shown weight moves from 19 g to
  20 g just before the 32-bit clock wraps and then stays at 20 g on the ticks at 0 and 801.
  The stall has lasted 801 ms and \<open>running\<close> is still true, the tick at 801 having only
  started the stall timer. The same refreshes one millisecond later (the stall from 1 to 802)
  stop the timer once.
\<close>

theorem stall_over_800ms_keeps_running:
  "map prevGFilt (shot_ticks 20 [4294967266, 0, 801] flowing_state) = [20, 20, 20] \<and>
   map flowStopTimer (shot_ticks 20 [4294967266, 0, 801] flowing_state) = [0, 0, 801] \<and>
   map running (shot_ticks 20 [4294967266, 0, 801] flowing_state) = [True, True, True] \<and>
   stop_events flowing_state (shot_ticks 20 [4294967266, 0, 801] flowing_state) = 0 \<and>
   (801::ulong) - 0 > 800 \<and>
   map prevGFilt (shot_ticks 20 [4294967267, 1, 802] flowing_state) = [20, 20, 20] \<and>
   map flowStopTimer (shot_ticks 20 [4294967267, 1, 802] flowing_state) = [0, 1, 0] \<and>
   map running (shot_ticks 20 [4294967267, 1, 802] flowing_state) = [True, True, False] \<and>
   stop_events flowing_state (shot_ticks 20 [4294967267, 1, 802] flowing_state) = 1"
proof -
  have s: "running flowing_state \<and> flowStopTimer flowing_state = 0 \<and> prevGFilt flowing_state = 19"
    by (simp add: flowing_state_def boot_state_def)
  define a1 where "a1 = shot_case 20 4294967266 flowing_state"
  define a2 where "a2 = shot_case 20 0 a1"
  define a3 where "a3 = shot_case 20 801 a2"
  define b1 where "b1 = shot_case 20 4294967267 flowing_state"
  define b2 where "b2 = shot_case 20 1 b1"
  define b3 where "b3 = shot_case 20 802 b2"
  have a1: "running a1 \<and> flowStopTimer a1 = 0 \<and> prevGFilt a1 = 20"
    using s shot_case_fields [of flowing_state 20 4294967266] by (simp add: a1_def)
  have a2: "running a2 \<and> flowStopTimer a2 = 0 \<and> prevGFilt a2 = 20"
    using a1 shot_case_fields [of a1 20 0] by (simp add: a2_def)
  have a3: "running a3 \<and> flowStopTimer a3 = 801 \<and> prevGFilt a3 = 20"
    using a2 shot_case_fields [of a2 20 801] by (simp add: a3_def)
  have b1: "running b1 \<and> flowStopTimer b1 = 0 \<and> prevGFilt b1 = 20"
    using s shot_case_fields [of flowing_state 20 4294967267] by (simp add: b1_def)
  have b2: "running b2 \<and> flowStopTimer b2 = 1 \<and> prevGFilt b2 = 20"
    using b1 shot_case_fields [of b1 20 1] by (simp add: b2_def)
  have b3: "\<not> running b3 \<and> flowStopTimer b3 = 0 \<and> prevGFilt b3 = 20"
    using b2 shot_case_fields [of b2 20 802] by (simp add: b3_def)
  have run0: "shot_ticks 20 [4294967266, 0, 801] flowing_state = [a1, a2, a3]"
    by (simp add: Let_def a1_def a2_def a3_def)
  have run1: "shot_ticks 20 [4294967267, 1, 802] flowing_state = [b1, b2, b3]"
    by (simp add: Let_def b1_def b2_def b3_def)
  have ev0: "stop_events flowing_state [a1, a2, a3] = 0"
    using s a1 a2 a3 by (simp add: stop_events_def)
  have ev1: "stop_events flowing_state [b1, b2, b3] = 1"
    using s b1 b2 b3 by (simp add: stop_events_def)
  have late: "(801::ulong) - 0 > 800" by simp
  from a1 a2 a3 b1 b2 b3 ev0 ev1 late show ?thesis
    unfolding run0 run1 by simp
qed

subsection \<open>Stall timer sentinel\<close>

text \<open>
  C8. The claim is that a stall whose first tick is at clock value 0 is recorded like any
  other, so that the auto-stop fires once it has lasted more than 800 ms. The code stores
  the clock in \<open>flowStopTimer\<close> and reads 0 as unset: with the timer running at a constant
  20 g, a first stall tick at clock 0 leaves the stall timer unset, and the tick at 801 only
  starts it, with the timer still running; the same run one millisecond later (ticks at 1
  and 802) stops the timer.
\<close>

theorem stall_at_zero_not_recorded:
  "(let s = boot_state\<lparr>mode := MODE_SHOT, running := True, startOnce := False,
                       gFilt := 20, prevGFilt := 20\<rparr>
    in flowStopTimer (shot_case 20 0 s) = 0 \<and>
       running (shot_case 20 801 (shot_case 20 0 s)) \<and>
       flowStopTimer (shot_case 20 801 (shot_case 20 0 s)) = 801 \<and>
       flowStopTimer (shot_case 20 1 s) = 1 \<and>
       \<not> running (shot_case 20 802 (shot_case 20 1 s)))"
  by (simp add: shot_case_def shot_defs boot_state_def Let_def)

end
